theory Spec2Isabelle
  imports Main "HOL-Library.Sublist"
begin

section \<open>The local distributor (cosmic\_ray/distribution/local.py)\<close>

subsection \<open>Errors and work items\<close>

text \<open>
  Python exceptions as values. \<open>LocalDistributor._process\<close> itself can raise
  \<open>ValueError\<close> (from \<open>shlex.split\<close> and from \<open>list.index\<close>) and
  \<open>IndexError\<close> (from the subscript \<open>test_command_split[n_tests_index]\<close>); the
  operators can raise \<open>AttributeError\<close>, \<open>AssertionError\<close> and
  \<open>IndexError\<close>. \<open>Exception msg\<close> stands for any other exception, such as one
  that escapes \<open>mutate_and_test\<close> or the \<open>on_task_complete\<close> callback: the loop
  has no handler, so whatever they raise propagates unchanged.
\<close>

datatype error = ValueError | IndexError | AttributeError | AssertionError | Exception string

text \<open>
  A work item as \<open>_process\<close> reads it: the attributes \<open>job_id\<close> and
  \<open>mutations\<close>. The job id is a string; it is interpolated into the command by an
  f-string. The mutation descriptors \<open>'m\<close> are only passed on.
\<close>

record 'm work_item =
  job_id :: string
  mutations :: "'m list"

subsection \<open>\<open>shlex.split\<close> in POSIX mode\<close>

text \<open>
  \<open>shlex.split(s)\<close> builds \<open>shlex(s, posix=True)\<close> with \<open>whitespace_split = True\<close>
  and no comment characters, and collects its tokens. The lexer is the character automaton
  of \<open>shlex.read_token\<close>: state \<open>' '\<close> between tokens, state \<open>'a'\<close> inside a word,
  a quote character as state inside a quotation, and the escape character as state after a
  backslash, with \<open>escapedstate\<close> remembering where to return.
\<close>

datatype lex_state = InSpace | InWord | InQuote char | InEscape lex_state

definition whitespace :: "char set" where
  "whitespace = {CHR 0x20, CHR 0x09, CHR 0x0D, CHR 0x0A}"

definition quotes :: "char set" where
  "quotes = {CHR 0x27, CHR 0x22}"

definition escape :: "char" where
  "escape = CHR 0x5C"

definition escapedquotes :: "char set" where
  "escapedquotes = {CHR 0x22}"

definition emit :: "string \<Rightarrow> error + string list \<Rightarrow> error + string list" where
  "emit tok r = (case r of Inl e \<Rightarrow> Inl e | Inr toks \<Rightarrow> Inr (tok # toks))"

text \<open>
  \<open>read_tokens st quoted tok cs\<close>: the lexer in state \<open>st\<close>, with the flag
  \<open>quoted\<close> and the partial token \<open>tok\<close> of the current \<open>read_token\<close> call,
  reading the remaining input \<open>cs\<close>. The result is the list of all further tokens, or
  the \<open>ValueError\<close> of an unclosed quotation or a trailing backslash. An empty token is
  a token only when it was quoted.
\<close>

fun read_tokens :: "lex_state \<Rightarrow> bool \<Rightarrow> string \<Rightarrow> string \<Rightarrow> error + string list" where
  "read_tokens InSpace quoted tok [] = Inr (if tok \<noteq> [] \<or> quoted then [tok] else [])"
| "read_tokens InWord quoted tok [] = Inr (if tok \<noteq> [] \<or> quoted then [tok] else [])"
| "read_tokens (InQuote q) quoted tok [] = Inl ValueError"
| "read_tokens (InEscape es) quoted tok [] = Inl ValueError"
| "read_tokens InSpace quoted tok (c # cs) =
     (if c \<in> whitespace then
        (if tok \<noteq> [] \<or> quoted then emit tok (read_tokens InSpace False [] cs)
         else read_tokens InSpace quoted tok cs)
      else if c = escape then read_tokens (InEscape InWord) quoted tok cs
      else if c \<in> quotes then read_tokens (InQuote c) quoted tok cs
      else read_tokens InWord quoted [c] cs)"
| "read_tokens (InQuote q) quoted tok (c # cs) =
     (if c = q then read_tokens InWord True tok cs
      else if c = escape \<and> q \<in> escapedquotes then read_tokens (InEscape (InQuote q)) True tok cs
      else read_tokens (InQuote q) True (tok @ [c]) cs)"
| "read_tokens (InEscape es) quoted tok (c # cs) =
     (case es of
        InQuote q \<Rightarrow>
          (if c \<noteq> escape \<and> c \<noteq> q then read_tokens es quoted (tok @ [escape, c]) cs
           else read_tokens es quoted (tok @ [c]) cs)
      | _ \<Rightarrow> read_tokens es quoted (tok @ [c]) cs)"
| "read_tokens InWord quoted tok (c # cs) =
     (if c \<in> whitespace then
        (if tok \<noteq> [] \<or> quoted then emit tok (read_tokens InSpace False [] cs)
         else read_tokens InSpace quoted tok cs)
      else if c \<in> quotes then read_tokens (InQuote c) quoted tok cs
      else if c = escape then read_tokens (InEscape InWord) quoted tok cs
      else read_tokens InWord quoted (tok @ [c]) cs)"

definition shlex_split :: "string \<Rightarrow> error + string list" where
  "shlex_split s = read_tokens InSpace False [] s"


subsection \<open>The loop of \<open>_process\<close>\<close>

text \<open>\<open>xs.index(x)\<close>: the first position of \<open>x\<close>; \<open>None\<close> stands for the \<open>ValueError\<close>.\<close>

fun list_index :: "'a list \<Rightarrow> 'a \<Rightarrow> nat option" where
  "list_index [] x = None"
| "list_index (y # ys) x =
     (if y = x then Some 0 else map_option Suc (list_index ys x))"

text \<open>
  Lines 32 to 34: split the command, find \<open>'-t'\<close>, read the token after it. The
  subscript is \<open>index + 1\<close>, never negative, so it raises \<open>IndexError\<close> exactly when
  \<open>'-t'\<close> is the last token.
\<close>

definition n_tests_of :: "string \<Rightarrow> error + string" where
  "n_tests_of test_command =
     (case shlex_split test_command of
        Inl e \<Rightarrow> Inl e
      | Inr test_command_split \<Rightarrow>
          (case list_index test_command_split ''-t'' of
             None \<Rightarrow> Inl ValueError
           | Some i \<Rightarrow>
               (let n_tests_index = i + 1 in
                if n_tests_index < length test_command_split
                then Inr (test_command_split ! n_tests_index)
                else Inl IndexError)))"

text \<open>The path interpolated by the f-string, and the command handed to \<open>mutate_and_test\<close>.\<close>

definition output_path :: "string \<Rightarrow> string \<Rightarrow> string" where
  "output_path n_tests job = ''t'' @ n_tests @ ''/'' @ job @ ''.json''"

definition item_command :: "string \<Rightarrow> string \<Rightarrow> string \<Rightarrow> string" where
  "item_command test_command n_tests job = test_command @ '' -o '' @ output_path n_tests job"

text \<open>
  What an observer of a run sees, in order: \<open>mutate_and_test\<close> is called for a work
  item with a command (\<open>Started\<close>), it returns a result (\<open>Finished\<close>), and
  \<open>on_task_complete\<close> is called with a job id and a result (\<open>Notified\<close>).
\<close>

datatype ('m, 'r) event =
    Started "'m work_item" string
  | Finished "'m work_item" 'r
  | Notified string 'r

text \<open>
  \<open>mutate_and_test\<close> and \<open>on_task_complete\<close> are supplied by the caller and act on the
  world \<open>'w\<close> outside the distributor (the file system, the test processes, the work
  database). Each takes the world and returns the new one; \<open>mutate_and_test\<close> returns a
  result or raises, the callback returns or raises.
\<close>

type_synonym ('w, 'm, 't, 'r) mutate_and_test =
  "'w \<Rightarrow> 'm list \<Rightarrow> string \<Rightarrow> 't \<Rightarrow> (error + 'r) \<times> 'w"

type_synonym ('w, 'r) on_task_complete =
  "'w \<Rightarrow> string \<Rightarrow> 'r \<Rightarrow> error option \<times> 'w"

text \<open>
  The \<open>for\<close> loop of \<open>_process\<close>. The result is how the coroutine ends (\<open>Inr ()\<close>
  for a normal return, \<open>Inl e\<close> for the exception that leaves it), the events in the
  order they happened, and the final world. Every iteration evaluates lines 32 to 34 again
  before it calls \<open>mutate_and_test\<close>; with no work item the body never runs.
\<close>

fun process ::
  "('w, 'm, 't, 'r) mutate_and_test \<Rightarrow> ('w, 'r) on_task_complete \<Rightarrow>
   string \<Rightarrow> 't \<Rightarrow> 'm work_item list \<Rightarrow> 'w \<Rightarrow>
   (error + unit) \<times> ('m, 'r) event list \<times> 'w" where
  "process mat otc test_command timeout [] world = (Inr (), [], world)"
| "process mat otc test_command timeout (work_item # rest) world =
     (case n_tests_of test_command of
        Inl e \<Rightarrow> (Inl e, [], world)
      | Inr n_tests \<Rightarrow>
          (let cmd = item_command test_command n_tests (job_id work_item) in
           case mat world (mutations work_item) cmd timeout of
             (Inl x, world1) \<Rightarrow> (Inl x, [Started work_item cmd], world1)
           | (Inr result, world1) \<Rightarrow>
               (let evs = [Started work_item cmd, Finished work_item result,
                           Notified (job_id work_item) result] in
                case otc world1 (job_id work_item) result of
                  (Some x, world2) \<Rightarrow> (Inl x, evs, world2)
                | (None, world2) \<Rightarrow>
                    (case process mat otc test_command timeout rest world2 of
                       (res, evs', world3) \<Rightarrow> (res, evs @ evs', world3)))))"

text \<open>
  A test command names an option when \<open>shlex.split\<close> accepts it and the option is
  one of its tokens.
\<close>

definition names_option :: "string \<Rightarrow> string \<Rightarrow> bool" where
  "names_option test_command opt =
     (case shlex_split test_command of Inl e \<Rightarrow> False | Inr toks \<Rightarrow> opt \<in> set toks)"

text \<open>Projections of a run.\<close>

definition outcome_of :: "('e + unit) \<times> 'ev list \<times> 'w \<Rightarrow> 'e + unit" where
  "outcome_of run = fst run"

definition trace_of :: "('e + unit) \<times> 'ev list \<times> 'w \<Rightarrow> 'ev list" where
  "trace_of run = fst (snd run)"

fun notified :: "('m, 'r) event list \<Rightarrow> string list" where
  "notified [] = []"
| "notified (Notified j r # evs) = j # notified evs"
| "notified (_ # evs) = notified evs"

fun started :: "('m, 'r) event list \<Rightarrow> 'm work_item list" where
  "started [] = []"
| "started (Started w c # evs) = w # started evs"
| "started (_ # evs) = started evs"

text \<open>
  A trace is sequential when it is a run of complete rounds, each the call of
  \<open>mutate_and_test\<close> for one work item, its return, and the callback for that same item
  with that same result, possibly followed by one last call that did not return.
\<close>

fun sequential :: "('m, 'r) event list \<Rightarrow> bool" where
  "sequential [] = True"
| "sequential [Started w c] = True"
| "sequential (Started w c # Finished w' r # Notified j r' # evs) =
     (w' = w \<and> r' = r \<and> j = job_id w \<and> sequential evs)"
| "sequential _ = False"

subsection \<open>What the callers observe\<close>

text \<open>
  A run is observed from outside through the two functions it is given. An observing
  \<open>mutate_and_test\<close> notes every call made to it, with its arguments and with the
  result it returned or the exception it raised; an observing callback notes every
  invocation with its arguments. The notes are kept in the world, beside the world of the
  observed functions, which behave as before.
\<close>

datatype ('m, 't, 'r) observation =
    Tested "'m list" string 't "error + 'r"
  | Completed string 'r

definition observing_mat ::
  "('w, 'm, 't, 'r) mutate_and_test \<Rightarrow>
   ('w \<times> ('m, 't, 'r) observation list, 'm, 't, 'r) mutate_and_test" where
  "observing_mat mat state ms cmd timeout =
     (case state of (world, seen) \<Rightarrow>
        (case mat world ms cmd timeout of
           (res, world') \<Rightarrow> (res, (world', seen @ [Tested ms cmd timeout res]))))"

definition observing_otc ::
  "('w, 'r) on_task_complete \<Rightarrow>
   ('w \<times> ('m, 't, 'r) observation list, 'r) on_task_complete" where
  "observing_otc otc state job result =
     (case state of (world, seen) \<Rightarrow>
        (case otc world job result of
           (x, world') \<Rightarrow> (x, (world', seen @ [Completed job result]))))"

text \<open>The notes at the end of a run that started with none.\<close>

definition observed ::
  "('w, 'm, 't, 'r) mutate_and_test \<Rightarrow> ('w, 'r) on_task_complete \<Rightarrow>
   string \<Rightarrow> 't \<Rightarrow> 'm work_item list \<Rightarrow> 'w \<Rightarrow> ('m, 't, 'r) observation list" where
  "observed mat otc test_command timeout pending_work world =
     snd (snd (snd (process (observing_mat mat) (observing_otc otc) test_command timeout
       pending_work (world, []))))"

text \<open>The job ids the callback was invoked with, in the order of the invocations.\<close>

fun completed :: "('m, 't, 'r) observation list \<Rightarrow> string list" where
  "completed [] = []"
| "completed (Completed j r # obs) = j # completed obs"
| "completed (Tested ms c t res # obs) = completed obs"

text \<open>
  The schedule of a sequential backend: for each work item in order, one call of
  \<open>mutate_and_test\<close> with the command of that item, returning a result, and then one
  invocation of the callback with the job id of the item and that result.
\<close>

fun rounds ::
  "string \<Rightarrow> string \<Rightarrow> 't \<Rightarrow> 'm work_item list \<Rightarrow> 'r list \<Rightarrow> ('m, 't, 'r) observation list" where
  "rounds test_command n timeout (w # ws) (r # rs) =
     Tested (mutations w) (item_command test_command n (job_id w)) timeout (Inr r)
       # Completed (job_id w) r # rounds test_command n timeout ws rs"
| "rounds test_command n timeout ws rs = []"

text \<open>
  The observations a log accounts for: a call that returned, a call that raised the
  exception the run ended with (the last entry of the log), and an invocation of the
  callback.
\<close>

fun observations :: "'t \<Rightarrow> error + unit \<Rightarrow> ('m, 'r) event list \<Rightarrow> ('m, 't, 'r) observation list" where
  "observations t res [] = []"
| "observations t res (Started w c # Finished w' r # evs) =
     Tested (mutations w) c t (Inr r) # observations t res evs"
| "observations t res [Started w c] =
     (case res of Inl x \<Rightarrow> [Tested (mutations w) c t (Inl x)] | Inr u \<Rightarrow> [])"
| "observations t res (Notified j r # evs) = Completed j r # observations t res evs"
| "observations t res (ev # evs) = observations t res evs"

subsection \<open>The test executor behind \<open>mutate_and_test\<close>\<close>

text \<open>
  Modelled from the spec: \<open>cosmic_ray.mutating.mutate_and_test\<close>, which \<open>local.py\<close>
  imports and calls, is not among the sources. Sections 3, 4.2 (step 4) and 4.3 of the
  specification describe what it does with one work item: it runs the test command
  against the mutated code under the timeout and records a \<open>TestOutcome\<close> and a
  terminal status. On normal completion \<open>survived = (tests passed)\<close>; on timeout
  \<open>survived = true\<close> and the status is \<open>TIMED_OUT\<close>; a crash of the executor or a
  mutation site that is no longer there gives \<open>ERRORED\<close> with the raw output.
  The specification does not say what \<open>survived\<close> is for an \<open>ERRORED\<close> item; it is
  \<open>False\<close> here. Durations and the timeout are whole time units.
\<close>

datatype status = PENDING | RUNNING | COMPLETE | TIMED_OUT | ERRORED

text \<open>
  Modelled from the spec: the \<open>TestOutcome\<close> of section 3, which
  \<open>mutate_and_test\<close> (not among the sources) returns; \<open>output\<close> is the field
  \<open>output_text\<close>.
\<close>

record test_outcome =
  survived :: bool
  output_text :: string
  duration :: nat
  exit_code :: int

text \<open>
  Modelled from the spec: the behaviour of the test process that the missing
  \<open>mutate_and_test\<close> starts, as sections 4.2 and 7 distinguish it. Left alone it
  exits after some time with the tests passed or failed, crashes after some time, never
  exits, or never starts because the mutation could not be applied.
\<close>

datatype test_run =
    Exits bool int string nat
  | Crashes int string nat
  | Hangs
  | SiteNotFound string

text \<open>
  Modelled from the spec: the test execution exceeds the timeout (the missing
  \<open>mutate_and_test\<close> enforces it, section 4.3).
\<close>

fun exceeds :: "test_run \<Rightarrow> nat \<Rightarrow> bool" where
  "exceeds (Exits passed code out d) timeout = (timeout < d)"
| "exceeds (Crashes code out d) timeout = (timeout < d)"
| "exceeds Hangs timeout = True"
| "exceeds (SiteNotFound out) timeout = False"


text \<open>
  Modelled from the spec: step 4 of section 4.2, the result the missing
  \<open>mutate_and_test\<close> records for each way the test process can go.
\<close>

fun execute :: "test_run \<Rightarrow> nat \<Rightarrow> status \<times> test_outcome" where
  "execute (Exits passed code out d) timeout =
     (if timeout < d
      then (TIMED_OUT, \<lparr>survived = True, output_text = [], duration = timeout, exit_code = - 1\<rparr>)
      else (COMPLETE, \<lparr>survived = passed, output_text = out, duration = d, exit_code = code\<rparr>))"
| "execute (Crashes code out d) timeout =
     (if timeout < d
      then (TIMED_OUT, \<lparr>survived = True, output_text = [], duration = timeout, exit_code = - 1\<rparr>)
      else (ERRORED, \<lparr>survived = False, output_text = out, duration = d, exit_code = code\<rparr>))"
| "execute Hangs timeout =
     (TIMED_OUT, \<lparr>survived = True, output_text = [], duration = timeout, exit_code = - 1\<rparr>)"
| "execute (SiteNotFound out) timeout =
     (ERRORED, \<lparr>survived = False, output_text = out, duration = 0, exit_code = - 1\<rparr>)"

text \<open>
  Modelled from the spec: \<open>mutate_and_test\<close> itself, which is missing from the
  sources. \<open>tests\<close> says what the test process does in a given world for given
  mutations and command. The executor contains every failure: it always returns a result.
\<close>

definition spec_mutate_and_test ::
  "('w \<Rightarrow> 'm list \<Rightarrow> string \<Rightarrow> test_run \<times> 'w) \<Rightarrow>
   ('w, 'm, nat, status \<times> test_outcome) mutate_and_test" where
  "spec_mutate_and_test tests world ms cmd timeout =
     (case tests world ms cmd of (run, world') \<Rightarrow> (Inr (execute run timeout), world'))"

section \<open>The operators (cosmic\_ray/operators)\<close>

subsection \<open>Parse-tree nodes\<close>

text \<open>
  The operators work on the tree of the \<open>parso\<close> parser. A node is a leaf (a token
  with its text \<open>value\<close>, its start position and the whitespace \<open>prefix\<close> before
  it) or an inner node with \<open>children\<close>. Each is an instance of a class of
  \<open>parso.python.tree\<close>; \<open>PythonNode\<close> is the generic inner node and carries its
  grammar \<open>type\<close>, \<open>PythonErrorLeaf\<close> is a token the parser could not place and
  carries its token type. A position is a pair (line, column).
\<close>

type_synonym pos = "nat \<times> nat"

datatype leaf_class =
    Name | Number | Operator | Keyword | String | Newline | EndMarker | PythonErrorLeaf string

datatype node_class = ForStmt | IfStmt | ExprStmt | Module | PythonNode string

datatype node =
    Leaf leaf_class string pos string
  | Node node_class "node list"

fun is_ForStmt :: "node \<Rightarrow> bool" where
  "is_ForStmt (Node ForStmt cs) = True"
| "is_ForStmt _ = False"

text \<open>
  \<open>parso.utils.split_lines(string)\<close> is \<open>re.split(r'\n|\r\n|\r', string)\<close>: the
  text between line breaks, never an empty list.
\<close>

fun split_lines :: "string \<Rightarrow> string list" where
  "split_lines [] = [[]]"
| "split_lines (c # cs) =
     (if c = CHR 0x0A then [] # split_lines cs
      else if c = CHR 0x0D then
        (case cs of
           [] \<Rightarrow> [] # split_lines cs
         | d # ds \<Rightarrow> if d = CHR 0x0A then [] # split_lines ds else [] # split_lines cs)
      else (case split_lines cs of
              [] \<Rightarrow> [[c]]
            | l # ls \<Rightarrow> (c # l) # ls))"

text \<open>
  The properties \<open>start_pos\<close> and \<open>end_pos\<close>. The leaf classes \<open>Name\<close>,
  \<open>Keyword\<close>, \<open>Operator\<close> and \<open>EndMarker\<close> take their text to have no line
  break and end at \<open>column + len(value)\<close> on their own line; every other leaf ends on
  the last line of its text. An inner node starts where \<open>children[0]\<close> starts and ends
  where \<open>children[-1]\<close> ends, which raises \<open>IndexError\<close> on a node without
  children (the parser builds none).
\<close>

fun start_pos :: "node \<Rightarrow> error + pos" where
  "start_pos (Leaf cls val p pre) = Inr p"
| "start_pos (Node cls []) = Inl IndexError"
| "start_pos (Node cls (c # cs)) = start_pos c"

fun without_newlines :: "leaf_class \<Rightarrow> bool" where
  "without_newlines Name = True"
| "without_newlines Keyword = True"
| "without_newlines Operator = True"
| "without_newlines EndMarker = True"
| "without_newlines _ = False"

definition leaf_end_pos :: "string \<Rightarrow> pos \<Rightarrow> pos" where
  "leaf_end_pos val p =
     (let lines = split_lines val;
          end_pos_line = fst p + length lines - 1
      in if fst p = end_pos_line then (end_pos_line, snd p + length (last lines))
         else (end_pos_line, length (last lines)))"

fun end_pos :: "node \<Rightarrow> error + pos"
  and end_pos_last :: "node list \<Rightarrow> error + pos" where
  "end_pos (Leaf cls val p pre) =
     Inr (if without_newlines cls then (fst p, snd p + length val) else leaf_end_pos val p)"
| "end_pos (Node cls cs) = end_pos_last cs"
| "end_pos_last [] = Inl IndexError"
| "end_pos_last [c] = end_pos c"
| "end_pos_last (c # d # cs) = end_pos_last (d # cs)"

text \<open>\<open>get_code()\<close>: the source text of a node, every leaf with its prefix.\<close>

fun get_code :: "node \<Rightarrow> string" where
  "get_code (Leaf cls val p pre) = pre @ val"
| "get_code (Node cls cs) = concat (map get_code cs)"

text \<open>
  \<open>parso.parse(" []")\<close>: the module of the one-line source \<open>" []"\<close>. The leading
  blank is an indentation, which the grammar does not allow at the top of a file, so the
  parser keeps the \<open>INDENT\<close> token as an error leaf; after it come the \<open>atom\<close> of
  the two brackets, the opening bracket carrying the blank as its prefix, and the end
  marker. Line numbers start at 1.
\<close>

definition empty_list :: node where
  "empty_list =
     Node Module
       [Leaf (PythonErrorLeaf ''INDENT'') [] (1, 1) [],
        Node (PythonNode ''atom'')
          [Leaf Operator ''['' (1, 1) '' '', Leaf Operator '']'' (1, 2) []],
        Leaf EndMarker [] (1, 3) []]"

text \<open>The constructor \<open>Example(pre_mutation_code, post_mutation_code)\<close>.\<close>

type_synonym example = "string \<times> string"

subsection \<open>\<open>NoOp\<close> (no\_op.py)\<close>

text \<open>
  \<open>mutation_positions\<close> is a generator; the model returns the sequence it yields, or
  the exception raised while producing it.
\<close>

definition NoOp_mutation_positions :: "node \<Rightarrow> error + (pos \<times> pos) list" where
  "NoOp_mutation_positions node =
     (case start_pos node of
        Inl e \<Rightarrow> Inl e
      | Inr s \<Rightarrow> (case end_pos node of Inl e \<Rightarrow> Inl e | Inr e \<Rightarrow> Inr [(s, e)]))"

definition NoOp_mutate :: "'n \<Rightarrow> int \<Rightarrow> 'n" where
  "NoOp_mutate node index = node"

definition NoOp_examples :: "example list" where
  "NoOp_examples =
     [(''@foo'' @ [CHR 0x0A] @ ''def bar(): pass'', ''@foo'' @ [CHR 0x0A] @ ''def bar(): pass''),
      (''def bar(): pass'', ''def bar(): pass''),
      (''1 + 1'', ''1 + 1'')]"

subsection \<open>\<open>ZeroIterationForLoop\<close> (zero\_iteration\_for\_loop.py)\<close>

text \<open>\<open>xs[i]\<close> and \<open>xs[i] = v\<close> for an index that is not negative.\<close>

definition getitem :: "'a list \<Rightarrow> nat \<Rightarrow> error + 'a" where
  "getitem xs i = (if i < length xs then Inr (xs ! i) else Inl IndexError)"

definition setitem :: "'a list \<Rightarrow> nat \<Rightarrow> 'a \<Rightarrow> error + 'a list" where
  "setitem xs i v = (if i < length xs then Inr (xs[i := v]) else Inl IndexError)"

text \<open>
  Only an inner node is a \<open>ForStmt\<close>, so \<open>node.children\<close> is there whenever the
  \<open>isinstance\<close> test passed.
\<close>

definition ZeroIterationForLoop_mutation_positions :: "node \<Rightarrow> error + (pos \<times> pos) list" where
  "ZeroIterationForLoop_mutation_positions node =
     (case node of
        Node ForStmt cs \<Rightarrow>
          (case getitem cs 3 of
             Inl e \<Rightarrow> Inl e
           | Inr expr \<Rightarrow>
               (case start_pos expr of
                  Inl e \<Rightarrow> Inl e
                | Inr s \<Rightarrow> (case end_pos expr of Inl e \<Rightarrow> Inl e | Inr e \<Rightarrow> Inr [(s, e)])))
      | _ \<Rightarrow> Inr [])"

text \<open>
  \<open>mutate\<close> assigns to \<open>node.children[3]\<close> in place and returns the same node; the
  model returns the node with the new list of children. Both \<open>assert\<close> statements
  raise \<open>AssertionError\<close>.
\<close>

definition ZeroIterationForLoop_mutate :: "node \<Rightarrow> int \<Rightarrow> error + node" where
  "ZeroIterationForLoop_mutate node index =
     (if index \<noteq> 0 then Inl AssertionError
      else (case node of
              Node ForStmt cs \<Rightarrow>
                (case setitem cs 3 empty_list of
                   Inl e \<Rightarrow> Inl e
                 | Inr cs' \<Rightarrow> Inr (Node ForStmt cs'))
            | _ \<Rightarrow> Inl AssertionError))"

definition ZeroIterationForLoop_examples :: "example list" where
  "ZeroIterationForLoop_examples = [(''for i in rang(1,2): pass'', ''for i in []: pass'')]"

subsection \<open>\<open>RemoveDecorator\<close> (remove\_decorator.py)\<close>

text \<open>
  This operator works on the tree of the \<open>ast\<close> module. A decorator is an expression:
  a plain name (\<open>ast.Name\<close>, with the attribute \<open>id\<close>), a dotted name
  (\<open>ast.Attribute\<close>) or a call (\<open>ast.Call\<close>); only \<open>ast.Name\<close> has an \<open>id\<close>.
  Of a function definition the operator reads and writes \<open>decorator_list\<close>.
\<close>

datatype expr =
    ast_Name string
  | ast_Attribute expr string
  | ast_Call expr "expr list"

fun expr_id :: "expr \<Rightarrow> error + string" where
  "expr_id (ast_Name i) = Inr i"
| "expr_id (ast_Attribute v a) = Inl AttributeError"
| "expr_id (ast_Call f args) = Inl AttributeError"

record FunctionDef =
  name :: string
  decorator_list :: "expr list"

definition regular_decorators :: "string set" where
  "regular_decorators = {''classmethod'', ''staticmethod'', ''abstractmethod''}"

text \<open>The comprehension \<open>[x for x in xs if keep(x.id)]\<close>; it raises where \<open>x.id\<close> does.\<close>

fun select_by_id :: "(string \<Rightarrow> bool) \<Rightarrow> expr list \<Rightarrow> error + expr list" where
  "select_by_id keep [] = Inr []"
| "select_by_id keep (x # xs) =
     (case expr_id x of
        Inl e \<Rightarrow> Inl e
      | Inr i \<Rightarrow>
          (case select_by_id keep xs of
             Inl e \<Rightarrow> Inl e
           | Inr ys \<Rightarrow> Inr (if keep i then x # ys else ys)))"

text \<open>\<open>del xs[idx]\<close>: a negative index counts from the end.\<close>

definition delitem :: "'a list \<Rightarrow> int \<Rightarrow> error + 'a list" where
  "delitem xs idx =
     (let n = int (length xs); j = (if idx < 0 then idx + n else idx)
      in if 0 \<le> j \<and> j < n then Inr (take (nat j) xs @ drop (nat j + 1) xs)
         else Inl IndexError)"

definition RemoveDecorator_mutate ::
  "'a FunctionDef_scheme \<Rightarrow> int \<Rightarrow> error + 'a FunctionDef_scheme" where
  "RemoveDecorator_mutate node idx =
     (case select_by_id (\<lambda>i. i \<notin> regular_decorators) (decorator_list node) of
        Inl e \<Rightarrow> Inl e
      | Inr decorator_candidates \<Rightarrow>
          (case delitem decorator_candidates idx of
             Inl e \<Rightarrow> Inl e
           | Inr remaining \<Rightarrow>
               (case select_by_id (\<lambda>i. i \<in> regular_decorators) (decorator_list node) of
                  Inl e \<Rightarrow> Inl e
                | Inr regular \<Rightarrow> Inr (node\<lparr>decorator_list := remaining @ regular\<rparr>))))"

text \<open>
  Predicates on decorators for stating properties: a plain name, and a plain name that is
  one of the regular decorators.
\<close>

fun is_Name :: "expr \<Rightarrow> bool" where
  "is_Name (ast_Name i) = True"
| "is_Name _ = False"

fun is_regular :: "expr \<Rightarrow> bool" where
  "is_regular (ast_Name i) = (i \<in> regular_decorators)"
| "is_regular _ = False"

subsection \<open>What each operator class defines\<close>










section \<open>Example inputs\<close>

text \<open>
  Concrete callers for evaluating runs. The world is the list of results the callback has
  recorded. \<open>mutate_and_test_total\<close> reports the number of mutations it applied;
  \<open>on_task_complete_example\<close> appends to the record. \<open>tests_example\<close> is a test
  suite that hangs on exactly the mutation \<open>0\<close>, \<open>tests_crashing\<close> one whose
  process crashes on exactly the mutation \<open>0\<close>.
\<close>

definition on_task_complete_example :: "((string \<times> 'r) list, 'r) on_task_complete" where
  "on_task_complete_example world job result = (None, world @ [(job, result)])"

definition tests_example :: "'w \<Rightarrow> nat list \<Rightarrow> string \<Rightarrow> test_run \<times> 'w" where
  "tests_example world ms cmd =
     (if 0 \<in> set ms then (Hangs, world) else (Exits False 1 ''1 failed'' 3, world))"


definition job_a :: "nat work_item" where
  "job_a = \<lparr>job_id = ''a'', mutations = [0]\<rparr>"

definition job_b :: "nat work_item" where
  "job_b = \<lparr>job_id = ''b'', mutations = [1, 2]\<rparr>"

definition job_empty :: "nat work_item" where
  "job_empty = \<lparr>job_id = ''e'', mutations = []\<rparr>"

definition mutate_and_test_total :: "((string \<times> nat) list, 'm, nat, nat) mutate_and_test" where
  "mutate_and_test_total world ms cmd timeout = (Inr (length ms), world)"

text \<open>A test suite that passes on the source text \<open>" []"\<close> and hangs on any other.\<close>

definition suite_example :: "node \<Rightarrow> test_run" where
  "suite_example n = (if get_code n = '' []'' then Exits True 0 ''1 passed'' 2 else Hangs)"

text \<open>
  The loop \<open>for i in xs: pass\<close> as the parser builds it, and a function definition
  decorated with \<open>@trace\<close>, \<open>@staticmethod\<close> and \<open>@retry\<close>.
\<close>

definition for_example :: node where
  "for_example =
     Node ForStmt
       [Leaf Keyword ''for'' (1, 0) [], Leaf Name ''i'' (1, 4) '' '',
        Leaf Keyword ''in'' (1, 6) '' '', Leaf Name ''xs'' (1, 9) '' '',
        Leaf Operator '':'' (1, 11) [], Leaf Keyword ''pass'' (1, 13) '' '']"

definition def_example :: FunctionDef where
  "def_example =
     \<lparr>name = ''f'',
      decorator_list = [ast_Name ''trace'', ast_Name ''staticmethod'', ast_Name ''retry'']\<rparr>"

text \<open>A function definition decorated with \<open>@trace\<close> and \<open>@functools.cache\<close>.\<close>

definition def_cached :: FunctionDef where
  "def_cached =
     \<lparr>name = ''f'',
      decorator_list = [ast_Name ''trace'', ast_Attribute (ast_Name ''functools'') ''cache'']\<rparr>"

section \<open>Properties of the local distributor\<close>

subsection \<open>One iteration of the loop\<close>

text \<open>
  The four ways an iteration can go: the command does not give a test count, the call of
  \<open>mutate_and_test\<close> raises, the callback raises, or both return and the loop goes on
  with the next work item.
\<close>


lemma process_Nil: "process mat otc cmd t [] world = (Inr (), [], world)"
  by simp

lemma process_malformed:
  "n_tests_of cmd = Inl e \<Longrightarrow> process mat otc cmd t (w # ws) world = (Inl e, [], world)"
  by simp

lemma process_mat_raises:
  "n_tests_of cmd = Inr n \<Longrightarrow> mat world (mutations w) (item_command cmd n (job_id w)) t = (Inl x, world1) \<Longrightarrow>
   process mat otc cmd t (w # ws) world = (Inl x, [Started w (item_command cmd n (job_id w))], world1)"
  by simp

lemma process_otc_raises:
  "n_tests_of cmd = Inr n \<Longrightarrow> mat world (mutations w) (item_command cmd n (job_id w)) t = (Inr r, world1) \<Longrightarrow>
   otc world1 (job_id w) r = (Some x, world2) \<Longrightarrow>
   process mat otc cmd t (w # ws) world =
     (Inl x, [Started w (item_command cmd n (job_id w)), Finished w r, Notified (job_id w) r], world2)"
  by simp

lemma process_continues:
  "n_tests_of cmd = Inr n \<Longrightarrow> mat world (mutations w) (item_command cmd n (job_id w)) t = (Inr r, world1) \<Longrightarrow>
   otc world1 (job_id w) r = (None, world2) \<Longrightarrow>
   process mat otc cmd t (w # ws) world =
     (outcome_of (process mat otc cmd t ws world2),
      [Started w (item_command cmd n (job_id w)), Finished w r, Notified (job_id w) r]
        @ trace_of (process mat otc cmd t ws world2),
      snd (snd (process mat otc cmd t ws world2)))"
  by (simp add: outcome_of_def trace_of_def split: prod.splits)

lemma process_Cons_cases:
  obtains (malformed) e where "n_tests_of cmd = Inl e"
      and "process mat otc cmd t (w # ws) world = (Inl e, [], world)"
  | (mat_raises) n x world1 where "n_tests_of cmd = Inr n"
      and "mat world (mutations w) (item_command cmd n (job_id w)) t = (Inl x, world1)"
      and "process mat otc cmd t (w # ws) world =
             (Inl x, [Started w (item_command cmd n (job_id w))], world1)"
  | (otc_raises) n r world1 x world2 where "n_tests_of cmd = Inr n"
      and "mat world (mutations w) (item_command cmd n (job_id w)) t = (Inr r, world1)"
      and "otc world1 (job_id w) r = (Some x, world2)"
      and "process mat otc cmd t (w # ws) world =
             (Inl x, [Started w (item_command cmd n (job_id w)), Finished w r, Notified (job_id w) r], world2)"
  | (continues) n r world1 world2 where "n_tests_of cmd = Inr n"
      and "mat world (mutations w) (item_command cmd n (job_id w)) t = (Inr r, world1)"
      and "otc world1 (job_id w) r = (None, world2)"
      and "process mat otc cmd t (w # ws) world =
     (outcome_of (process mat otc cmd t ws world2),
      [Started w (item_command cmd n (job_id w)), Finished w r, Notified (job_id w) r]
        @ trace_of (process mat otc cmd t ws world2),
      snd (snd (process mat otc cmd t ws world2)))"
proof (cases "n_tests_of cmd")
  case (Inl e)
  then show ?thesis by (intro malformed [OF _ process_malformed]) simp_all
next
  case (Inr n)
  obtain a world1 where m: "mat world (mutations w) (item_command cmd n (job_id w)) t = (a, world1)"
    by (cases "mat world (mutations w) (item_command cmd n (job_id w)) t")
  show ?thesis
  proof (cases a)
    case (Inl x)
    with Inr m show ?thesis by (intro mat_raises [OF _ _ process_mat_raises]) simp_all
  next
    case r: (Inr r)
    obtain b world2 where o: "otc world1 (job_id w) r = (b, world2)"
      by (cases "otc world1 (job_id w) r")
    show ?thesis
    proof (cases b)
      case None
      with Inr m r o show ?thesis by (intro continues [OF _ _ _ process_continues]) simp_all
    next
      case (Some x)
      with Inr m r o show ?thesis by (intro otc_raises [OF _ _ _ process_otc_raises]) simp_all
    qed
  qed
qed

lemma notified_prefix:
  "prefix (notified (trace_of (process mat otc cmd t ws world))) (map job_id ws)"
proof (induction ws arbitrary: world)
  case Nil
  show ?case by (simp add: trace_of_def)
next
  case (Cons w ws)
  show ?case
  proof (cases rule: process_Cons_cases [of cmd mat otc t w ws world])
    case (continues n r world1 world2)
    then show ?thesis using Cons [of world2] by (simp add: trace_of_def)
  qed (simp_all add: trace_of_def)
qed

lemma notified_complete:
  "outcome_of (process mat otc cmd t ws world) = Inr () \<Longrightarrow>
   notified (trace_of (process mat otc cmd t ws world)) = map job_id ws"
proof (induction ws arbitrary: world)
  case Nil
  show ?case by (simp add: trace_of_def)
next
  case (Cons w ws)
  show ?case
  proof (cases rule: process_Cons_cases [of cmd mat otc t w ws world])
    case (continues n r world1 world2)
    then show ?thesis using Cons.IH [of world2] Cons.prems by (simp add: trace_of_def outcome_of_def)
  qed (use Cons.prems in \<open>simp_all add: outcome_of_def\<close>)
qed

lemma started_prefix:
  "prefix (started (trace_of (process mat otc cmd t ws world))) ws"
proof (induction ws arbitrary: world)
  case Nil
  show ?case by (simp add: trace_of_def)
next
  case (Cons w ws)
  show ?case
  proof (cases rule: process_Cons_cases [of cmd mat otc t w ws world])
    case (continues n r world1 world2)
    then show ?thesis using Cons [of world2] by (simp add: trace_of_def)
  qed (simp_all add: trace_of_def)
qed

lemma started_complete:
  "outcome_of (process mat otc cmd t ws world) = Inr () \<Longrightarrow>
   started (trace_of (process mat otc cmd t ws world)) = ws"
proof (induction ws arbitrary: world)
  case Nil
  show ?case by (simp add: trace_of_def)
next
  case (Cons w ws)
  show ?case
  proof (cases rule: process_Cons_cases [of cmd mat otc t w ws world])
    case (continues n r world1 world2)
    then show ?thesis using Cons.IH [of world2] Cons.prems by (simp add: trace_of_def outcome_of_def)
  qed (use Cons.prems in \<open>simp_all add: outcome_of_def\<close>)
qed

lemma process_sequential:
  "sequential (trace_of (process mat otc cmd t ws world))"
proof (induction ws arbitrary: world)
  case Nil
  show ?case by (simp add: trace_of_def)
next
  case (Cons w ws)
  show ?case
  proof (cases rule: process_Cons_cases [of cmd mat otc t w ws world])
    case (continues n r world1 world2)
    then show ?thesis using Cons [of world2] by (simp add: trace_of_def)
  qed (simp_all add: trace_of_def)
qed

lemma process_returns:
  assumes "n_tests_of cmd = Inr n"
    and "\<And>world ms c. \<exists>r world'. mat world ms c t = (Inr r, world')"
    and "\<And>world j r. fst (otc world j r) = None"
  shows "outcome_of (process mat otc cmd t ws world) = Inr ()"
proof (induction ws arbitrary: world)
  case Nil
  show ?case by (simp add: outcome_of_def)
next
  case (Cons w ws)
  show ?case
  proof (cases rule: process_Cons_cases [of cmd mat otc t w ws world])
    case (continues n r world1 world2)
    then show ?thesis using Cons [of world2] by (simp add: outcome_of_def)
  next
    case (malformed e)
    then show ?thesis using assms(1) by simp
  next
    case (mat_raises n x world1)
    then show ?thesis using assms(2) [of world "mutations w" "item_command cmd n (job_id w)"] by simp
  next
    case (otc_raises n r world1 x world2)
    then show ?thesis using assms(3) [of world1 "job_id w" r] by simp
  qed
qed


lemma process_append:
  "process mat otc cmd t (xs @ ys) world =
     (case process mat otc cmd t xs world of
        (Inl e, tr, world1) \<Rightarrow> (Inl e, tr, world1)
      | (Inr u, tr, world1) \<Rightarrow>
          (outcome_of (process mat otc cmd t ys world1),
           tr @ trace_of (process mat otc cmd t ys world1),
           snd (snd (process mat otc cmd t ys world1))))"
proof (induction xs arbitrary: world)
  case Nil
  show ?case by (simp add: outcome_of_def trace_of_def)
next
  case (Cons w xs)
  show ?case
  proof (cases rule: process_Cons_cases [of cmd mat otc t w xs world])
    case (continues n r world1 world2)
    have "process mat otc cmd t ((w # xs) @ ys) world =
       (outcome_of (process mat otc cmd t (xs @ ys) world2),
        [Started w (item_command cmd n (job_id w)), Finished w r, Notified (job_id w) r]
          @ trace_of (process mat otc cmd t (xs @ ys) world2),
        snd (snd (process mat otc cmd t (xs @ ys) world2)))"
      using process_continues [where mat = mat and otc = otc and ws = "xs @ ys", OF continues(1,2,3)] by simp
    then show ?thesis
      using continues(4) Cons [of world2]
      by (cases "process mat otc cmd t xs world2")
         (auto simp: outcome_of_def trace_of_def split: sum.splits)
  next
    case (malformed e)
    then show ?thesis by simp
  next
    case (mat_raises n x world1)
    then show ?thesis by simp
  next
    case (otc_raises n r world1 x world2)
    then show ?thesis by simp
  qed
qed

lemma process_after:
  assumes "process mat otc cmd t before world = (Inr (), tr, world1)"
  shows "process mat otc cmd t (before @ rest) world =
           (outcome_of (process mat otc cmd t rest world1),
            tr @ trace_of (process mat otc cmd t rest world1),
            snd (snd (process mat otc cmd t rest world1)))"
  using assms by (simp add: process_append)

lemma process_after_raises:
  assumes "process mat otc cmd t before world = (Inr (), tr, world1)"
    and "n_tests_of cmd = Inr n"
    and "mat world1 (mutations w) (item_command cmd n (job_id w)) t = (Inl x, world2)"
  shows "process mat otc cmd t (before @ w # rest) world =
           (Inl x, tr @ [Started w (item_command cmd n (job_id w))], world2)"
proof -
  from assms(2,3) have "process mat otc cmd t (w # rest) world1 =
      (Inl x, [Started w (item_command cmd n (job_id w))], world2)"
    by simp
  then show ?thesis
    by (simp add: process_after [OF assms(1)] outcome_of_def trace_of_def)
qed

lemma process_after_continues:
  assumes "process mat otc cmd t before world = (Inr (), tr, world1)"
    and "n_tests_of cmd = Inr n"
    and "mat world1 (mutations w) (item_command cmd n (job_id w)) t = (Inr r, world2)"
    and "otc world2 (job_id w) r = (None, world3)"
  shows "process mat otc cmd t (before @ w # rest) world =
           (outcome_of (process mat otc cmd t rest world3),
            tr @ [Started w (item_command cmd n (job_id w)), Finished w r, Notified (job_id w) r]
               @ trace_of (process mat otc cmd t rest world3),
            snd (snd (process mat otc cmd t rest world3)))"
proof -
  from assms(2,3,4) have "process mat otc cmd t (w # rest) world1 =
     (outcome_of (process mat otc cmd t rest world3),
      [Started w (item_command cmd n (job_id w)), Finished w r, Notified (job_id w) r]
        @ trace_of (process mat otc cmd t rest world3),
      snd (snd (process mat otc cmd t rest world3)))"
    by (simp add: outcome_of_def trace_of_def split: prod.splits)
  then show ?thesis
    by (simp add: process_after [OF assms(1)] outcome_of_def trace_of_def)
qed

lemma sequential_notified:
  "sequential tr \<Longrightarrow> tr = pre @ Notified j r # post \<Longrightarrow>
   \<exists>w c pre'. pre = pre' @ [Started w c, Finished w r] \<and> job_id w = j"
proof (induction tr arbitrary: pre rule: sequential.induct)
  case (3 w c w' r' j' r'' evs)
  from "3.prems"(1) have eqs: "w' = w" "r'' = r'" "j' = job_id w" and evs: "sequential evs"
    by simp_all
  note IH = "3.IH" [OF evs]
  show ?case
  proof (cases pre)
    case Nil
    with "3.prems"(2) show ?thesis by simp
  next
    case p1: (Cons a pre1)
    show ?thesis
    proof (cases pre1)
      case Nil
      with "3.prems"(2) p1 show ?thesis by simp
    next
      case p2: (Cons b pre2)
      show ?thesis
      proof (cases pre2)
        case Nil
        with "3.prems"(2) eqs p1 p2 show ?thesis by auto
      next
        case p3: (Cons d pre3)
        with "3.prems"(2) p1 p2 have "evs = pre3 @ Notified j r # post"
          by simp
        from IH [OF this]
        obtain w0 c0 pre0 where "pre3 = pre0 @ [Started w0 c0, Finished w0 r]" and "job_id w0 = j"
          by auto
        with p1 p2 p3 show ?thesis by auto
      qed
    qed
  qed
qed (auto simp: Cons_eq_append_conv)

lemma started_mem: "Started w c \<in> set tr \<Longrightarrow> w \<in> set (started tr)"
  by (induction tr rule: started.induct) auto

lemma list_index_None: "list_index xs x = None \<longleftrightarrow> x \<notin> set xs"
  by (induction xs) auto

lemma emit_Inl: "emit tok r = Inl e \<longleftrightarrow> r = Inl e"
  by (cases r) (simp_all add: emit_def)

lemma read_tokens_error: "read_tokens st quoted tok cs = Inl e \<Longrightarrow> e = ValueError"
  by (induction st quoted tok cs rule: read_tokens.induct)
     (auto simp: emit_Inl split: if_splits lex_state.splits)

lemma n_tests_of_no_option:
  assumes "\<not> names_option cmd ''-t''"
  shows "n_tests_of cmd = Inl ValueError"
proof (cases "shlex_split cmd")
  case (Inl e)
  then have "e = ValueError"
    unfolding shlex_split_def by (rule read_tokens_error)
  then show ?thesis using Inl by (simp add: n_tests_of_def)
next
  case (Inr toks)
  with assms have "list_index toks ''-t'' = None"
    by (simp add: names_option_def list_index_None)
  with Inr show ?thesis by (simp add: n_tests_of_def)
qed

subsection \<open>Whole runs\<close>


lemma n_tests_of_example: "n_tests_of ''pytest -t 5'' = Inr ''5''"
  by code_simp

lemma n_tests_of_example_bad: "n_tests_of ''pytest tests'' = Inl ValueError"
  by code_simp

lemma run_example:
  "process mutate_and_test_total on_task_complete_example ''pytest -t 5'' 10 [job_a, job_b] [] =
     (Inr (),
      [Started job_a ''pytest -t 5 -o t5/a.json'', Finished job_a 1, Notified ''a'' 1,
       Started job_b ''pytest -t 5 -o t5/b.json'', Finished job_b 2, Notified ''b'' 2],
      [(''a'', 1), (''b'', 2)])"
  by (simp add: n_tests_of_example item_command_def output_path_def mutate_and_test_total_def
      on_task_complete_example_def job_a_def job_b_def)

lemma prefix_distinct: "prefix xs ys \<Longrightarrow> distinct ys \<Longrightarrow> distinct xs"
  by (auto simp: prefix_def)

lemma count_list_distinct_mem: "distinct xs \<Longrightarrow> x \<in> set xs \<Longrightarrow> count_list xs x = 1"
  by (induction xs) auto

subsection \<open>The log and the observations of the callers\<close>

text \<open>
  Running with observing callers changes neither how the run ends nor its log nor the world
  of the observed functions, and what the callers note is what the log accounts for.
\<close>

lemma observing_run:
  "process (observing_mat mat) (observing_otc otc) cmd t ws (world, seen) =
     (outcome_of (process mat otc cmd t ws world),
      trace_of (process mat otc cmd t ws world),
      (snd (snd (process mat otc cmd t ws world)),
       seen @ observations t (outcome_of (process mat otc cmd t ws world))
                (trace_of (process mat otc cmd t ws world))))"
proof (induction ws arbitrary: world seen)
  case Nil
  show ?case by (simp add: outcome_of_def trace_of_def)
next
  case (Cons w ws)
  show ?case
  proof (cases rule: process_Cons_cases [of cmd mat otc t w ws world])
    case (malformed e)
    then show ?thesis by (simp add: outcome_of_def trace_of_def)
  next
    case (mat_raises n x world1)
    then show ?thesis
      by (simp add: outcome_of_def trace_of_def observing_mat_def Let_def)
  next
    case (otc_raises n r world1 x world2)
    then show ?thesis
      by (simp add: outcome_of_def trace_of_def observing_mat_def observing_otc_def Let_def)
  next
    case (continues n r world1 world2)
    let ?seen' = "seen @ [Tested (mutations w) (item_command cmd n (job_id w)) t (Inr r),
                          Completed (job_id w) r]"
    have m: "observing_mat mat (world, seen) (mutations w) (item_command cmd n (job_id w)) t =
        (Inr r, (world1, seen @ [Tested (mutations w) (item_command cmd n (job_id w)) t (Inr r)]))"
      by (simp add: observing_mat_def continues(2))
    have o: "observing_otc otc
        (world1, seen @ [Tested (mutations w) (item_command cmd n (job_id w)) t (Inr r)])
        (job_id w) r = (None, (world2, ?seen'))"
      by (simp add: observing_otc_def continues(3))
    have "process (observing_mat mat) (observing_otc otc) cmd t (w # ws) (world, seen) =
       (outcome_of (process (observing_mat mat) (observing_otc otc) cmd t ws (world2, ?seen')),
        [Started w (item_command cmd n (job_id w)), Finished w r, Notified (job_id w) r]
          @ trace_of (process (observing_mat mat) (observing_otc otc) cmd t ws (world2, ?seen')),
        snd (snd (process (observing_mat mat) (observing_otc otc) cmd t ws (world2, ?seen'))))"
      by (rule process_continues [where mat = "observing_mat mat" and otc = "observing_otc otc",
            OF continues(1) m o])
    then show ?thesis
      using continues(4)
      by (simp add: Cons outcome_of_def trace_of_def)
  qed
qed

lemma observed_eq:
  "observed mat otc cmd t ws world =
     observations t (outcome_of (process mat otc cmd t ws world))
       (trace_of (process mat otc cmd t ws world))"
  by (simp add: observed_def observing_run)

lemma completed_observations: "completed (observations t res tr) = notified tr"
  by (induction t res tr rule: observations.induct) (simp_all split: sum.splits)

lemma completed_observed:
  "completed (observed mat otc cmd t ws world) = notified (trace_of (process mat otc cmd t ws world))"
  by (simp add: observed_eq completed_observations)

lemma completed_rounds:
  "length rs = length ws \<Longrightarrow> completed (rounds cmd n t ws rs) = map job_id ws"
  by (induction cmd n t ws rs rule: rounds.induct) simp_all

lemma observed_shape:
  assumes "n_tests_of cmd = Inr n"
  shows "\<exists>k rs tail. k \<le> length ws \<and> length rs = k \<and>
           observed mat otc cmd t ws world = rounds cmd n t (take k ws) rs @ tail \<and>
           (tail = [] \<or>
            (\<exists>x. k < length ws \<and>
               tail = [Tested (mutations (ws ! k)) (item_command cmd n (job_id (ws ! k))) t (Inl x)])) \<and>
           (outcome_of (process mat otc cmd t ws world) = Inr () \<longrightarrow> k = length ws \<and> tail = [])"
proof (induction ws arbitrary: world)
  case Nil
  show ?case by (simp add: observed_eq outcome_of_def trace_of_def)
next
  case (Cons w ws)
  show ?case
  proof (cases rule: process_Cons_cases [of cmd mat otc t w ws world])
    case (malformed e)
    with assms show ?thesis by simp
  next
    case (mat_raises n' x world1)
    with assms have "observed mat otc cmd t (w # ws) world =
        rounds cmd n t (take 0 (w # ws)) [] @
          [Tested (mutations ((w # ws) ! 0)) (item_command cmd n (job_id ((w # ws) ! 0))) t (Inl x)]"
      and "outcome_of (process mat otc cmd t (w # ws) world) \<noteq> Inr ()"
      by (simp_all add: observed_eq outcome_of_def trace_of_def)
    then show ?thesis
      by (intro exI [of _ 0] exI [of _ "[]"]
          exI [of _ "[Tested (mutations ((w # ws) ! 0)) (item_command cmd n (job_id ((w # ws) ! 0))) t (Inl x)]"])
         auto
  next
    case (otc_raises n' r world1 x world2)
    with assms have "observed mat otc cmd t (w # ws) world = rounds cmd n t (take 1 (w # ws)) [r] @ []"
      and "outcome_of (process mat otc cmd t (w # ws) world) \<noteq> Inr ()"
      by (simp_all add: observed_eq outcome_of_def trace_of_def)
    then show ?thesis
      by (intro exI [of _ 1] exI [of _ "[r]"] exI [of _ "[]"]) auto
  next
    case (continues n' r world1 world2)
    from Cons [of world2] obtain k rs tail where k: "k \<le> length ws" "length rs = k"
      and o: "observed mat otc cmd t ws world2 = rounds cmd n t (take k ws) rs @ tail"
      and t: "tail = [] \<or>
            (\<exists>x. k < length ws \<and>
               tail = [Tested (mutations (ws ! k)) (item_command cmd n (job_id (ws ! k))) t (Inl x)])"
      and e: "outcome_of (process mat otc cmd t ws world2) = Inr () \<longrightarrow> k = length ws \<and> tail = []"
      by blast
    from continues assms have n': "n' = n" by simp
    from continues(4) o have "observed mat otc cmd t (w # ws) world =
        rounds cmd n t (take (Suc k) (w # ws)) (r # rs) @ tail"
      by (simp add: observed_eq outcome_of_def trace_of_def n')
    moreover from continues(4) e
    have "outcome_of (process mat otc cmd t (w # ws) world) = Inr () \<longrightarrow>
            Suc k = length (w # ws) \<and> tail = []"
      by (simp add: outcome_of_def)
    ultimately show ?thesis
      using k t
      by (intro exI [of _ "Suc k"] exI [of _ "r # rs"] exI [of _ tail]) auto
  qed
qed

lemma observed_malformed:
  "n_tests_of cmd = Inl e \<Longrightarrow> observed mat otc cmd t ws world = []"
  by (cases ws) (simp_all add: observed_eq outcome_of_def trace_of_def)

lemma completed_append: "completed (xs @ ys) = completed xs @ completed ys"
  by (induction xs rule: completed.induct) simp_all

lemma rounds_completed_before:
  assumes "rounds cmd n t ws rs @ tail = pre @ Completed j r # post"
    and "completed tail = []"
  shows "\<exists>w pre'. w \<in> set ws \<and> job_id w = j \<and>
            pre = pre' @ [Tested (mutations w) (item_command cmd n j) t (Inr r)]"
  using assms
proof (induction cmd n t ws rs arbitrary: pre rule: rounds.induct)
  case (1 cmd n t w ws r' rs)
  show ?case
  proof (cases pre)
    case Nil
    with "1.prems" show ?thesis by simp
  next
    case p1: (Cons a pre1)
    show ?thesis
    proof (cases pre1)
      case Nil
      with "1.prems" p1 show ?thesis by auto
    next
      case p2: (Cons b pre2)
      with "1.prems" p1 have "rounds cmd n t ws rs @ tail = pre2 @ Completed j r # post"
        by simp
      from "1.IH" [OF this "1.prems"(2)] p1 p2 show ?thesis by auto
    qed
  qed
qed (simp_all add: completed_append)

lemma completed_before:
  assumes "observed mat otc cmd t ws world = pre @ Completed j r # post"
  shows "\<exists>w c pre'. w \<in> set ws \<and> job_id w = j \<and> pre = pre' @ [Tested (mutations w) c t (Inr r)]"
proof (cases "n_tests_of cmd")
  case (Inl e)
  with assms show ?thesis by (simp add: observed_malformed)
next
  case (Inr n)
  from observed_shape [OF Inr, of ws mat otc t world]
  obtain k rs tail where o: "observed mat otc cmd t ws world = rounds cmd n t (take k ws) rs @ tail"
    and t: "tail = [] \<or> (\<exists>x. k < length ws \<and>
               tail = [Tested (mutations (ws ! k)) (item_command cmd n (job_id (ws ! k))) t (Inl x)])"
    by blast
  from t have "completed tail = []" by auto
  from o assms have "rounds cmd n t (take k ws) rs @ tail = pre @ Completed j r # post"
    by simp
  from rounds_completed_before [OF this \<open>completed tail = []\<close>]
  obtain w pre' where "w \<in> set (take k ws)" "job_id w = j"
      "pre = pre' @ [Tested (mutations w) (item_command cmd n j) t (Inr r)]"
    by blast
  then show ?thesis using set_take_subset by fastforce
qed

lemma n_tests_of_example_none: "n_tests_of ''pytest --fast'' = Inl ValueError"
  by code_simp

lemma n_tests_of_example_last: "n_tests_of ''pytest -t'' = Inl IndexError"
  by code_simp

lemma observed_example:
  "observed mutate_and_test_total on_task_complete_example ''pytest -t 5'' 10 [job_a, job_b] [] =
     [Tested [0] ''pytest -t 5 -o t5/a.json'' 10 (Inr 1), Completed ''a'' 1,
      Tested [1, 2] ''pytest -t 5 -o t5/b.json'' 10 (Inr 2), Completed ''b'' 2]"
  unfolding observed_eq run_example
  by (simp add: outcome_of_def trace_of_def job_a_def job_b_def)

text \<open>
  C1, as the code has it. Let the work items of a run have distinct job ids, and take what
  the callers observe of the run. In every run \<open>on_task_complete\<close> is invoked at most
  once for a job id and only for job ids of the pending work, and each invocation comes
  directly after the call of \<open>mutate_and_test\<close> for a work item with that job id has
  returned the result the invocation passes on. When the test command gives a test count
  and neither \<open>mutate_and_test\<close> nor the callback raises, the run returns normally and
  the callback has been invoked exactly once for the job id of every work item. When the
  test command gives no test count, the callers are never called: every callback is
  dropped.
\<close>

theorem C1_on_task_complete_at_most_once:
  fixes mat :: "('w, 'm, 't, 'r) mutate_and_test"
    and otc :: "('w, 'r) on_task_complete"
    and test_command :: string and timeout :: 't
    and pending_work :: "'m work_item list" and world :: 'w
  assumes "distinct (map job_id pending_work)"
  defines "obs \<equiv> observed mat otc test_command timeout pending_work world"
  shows "distinct (completed obs) \<and>
         set (completed obs) \<subseteq> job_id ` set pending_work \<and>
         (\<forall>pre j r post. obs = pre @ Completed j r # post \<longrightarrow>
            (\<exists>w c pre'. w \<in> set pending_work \<and> job_id w = j \<and>
                        pre = pre' @ [Tested (mutations w) c timeout (Inr r)])) \<and>
         ((\<exists>n. n_tests_of test_command = Inr n) \<and>
          (\<forall>world' ms c. \<exists>r world''. mat world' ms c timeout = (Inr r, world'')) \<and>
          (\<forall>world' j r. fst (otc world' j r) = None) \<longrightarrow>
            outcome_of (process mat otc test_command timeout pending_work world) = Inr () \<and>
            completed obs = map job_id pending_work \<and>
            (\<forall>w \<in> set pending_work. count_list (completed obs) (job_id w) = 1)) \<and>
         ((\<exists>e. n_tests_of test_command = Inl e) \<longrightarrow> obs = [])"
proof (intro conjI allI impI)
  have pre: "prefix (completed obs) (map job_id pending_work)"
    unfolding obs_def completed_observed by (rule notified_prefix)
  from pre assms(1) show "distinct (completed obs)"
    by (rule prefix_distinct)
  from set_mono_prefix [OF pre] show "set (completed obs) \<subseteq> job_id ` set pending_work"
    by simp
next
  fix pre j r post
  assume "obs = pre @ Completed j r # post"
  then show "\<exists>w c pre'. w \<in> set pending_work \<and> job_id w = j \<and>
                pre = pre' @ [Tested (mutations w) c timeout (Inr r)]"
    unfolding obs_def by (rule completed_before)
next
  assume a: "(\<exists>n. n_tests_of test_command = Inr n) \<and>
          (\<forall>world' ms c. \<exists>r world''. mat world' ms c timeout = (Inr r, world'')) \<and>
          (\<forall>world' j r. fst (otc world' j r) = None)"
  then obtain n where n: "n_tests_of test_command = Inr n" by blast
  show ret: "outcome_of (process mat otc test_command timeout pending_work world) = Inr ()"
    by (rule process_returns [OF n]) (use a in blast)+
  then show all: "completed obs = map job_id pending_work"
    unfolding obs_def completed_observed by (rule notified_complete)
  with assms(1) show "\<forall>w \<in> set pending_work. count_list (completed obs) (job_id w) = 1"
    by (simp add: count_list_distinct_mem)
next
  assume "\<exists>e. n_tests_of test_command = Inl e"
  then obtain e where "n_tests_of test_command = Inl e" by blast
  then show "obs = []"
    unfolding obs_def by (rule observed_malformed)
qed

theorem C1_witness:
  "distinct (map job_id [job_a, job_b]) \<and>
   n_tests_of ''pytest -t 5'' = Inr ''5'' \<and>
   (\<forall>world' ms c. \<exists>r world''.
      mutate_and_test_total world' (ms :: nat list) c 10 = (Inr r, world'')) \<and>
   (\<forall>world' j r. fst (on_task_complete_example world' j (r :: nat)) = None) \<and>
   outcome_of (process mutate_and_test_total on_task_complete_example ''pytest -t 5'' 10
     [job_a, job_b] []) = Inr () \<and>
   observed mutate_and_test_total on_task_complete_example ''pytest -t 5'' 10 [job_a, job_b] [] =
     [Tested [0] ''pytest -t 5 -o t5/a.json'' 10 (Inr 1), Completed ''a'' 1,
      Tested [1, 2] ''pytest -t 5 -o t5/b.json'' 10 (Inr 2), Completed ''b'' 2] \<and>
   count_list (completed (observed mutate_and_test_total on_task_complete_example
     ''pytest -t 5'' 10 [job_a, job_b] [])) (job_id job_a) = 1 \<and>
   count_list (completed (observed mutate_and_test_total on_task_complete_example
     ''pytest -t 5'' 10 [job_a, job_b] [])) (job_id job_b) = 1 \<and>
   n_tests_of ''pytest --fast'' = Inl ValueError \<and>
   observed mutate_and_test_total on_task_complete_example ''pytest --fast'' 10 [job_a, job_b] [] = []"
proof -
  have d: "distinct (map job_id [job_a, job_b])"
    by (simp add: job_a_def job_b_def)
  from C1_on_task_complete_at_most_once [OF d, of mutate_and_test_total
      on_task_complete_example "''pytest -t 5''" 10 "[]"]
    C1_on_task_complete_at_most_once [OF d, of mutate_and_test_total
      on_task_complete_example "''pytest --fast''" 10 "[]"]
  show ?thesis
    unfolding observed_example
    by (simp add: n_tests_of_example n_tests_of_example_none run_example outcome_of_def
        job_a_def job_b_def mutate_and_test_total_def on_task_complete_example_def)
qed

theorem C1_counterexample:
  "distinct (map job_id [job_a, job_b]) \<and>
   outcome_of (process mutate_and_test_total on_task_complete_example ''pytest --fast'' 10
     [job_a, job_b] []) = Inl ValueError \<and>
   count_list (completed (observed mutate_and_test_total on_task_complete_example
     ''pytest --fast'' 10 [job_a, job_b] [])) (job_id job_a) = 0"
  by (simp add: observed_malformed [OF n_tests_of_example_none] n_tests_of_example_none
      outcome_of_def job_a_def job_b_def)

text \<open>
  C4, as the code has it. The local distributor works through the pending work one item
  at a time and in order. What the callers observe of a run is, for the first \<open>k\<close>
  work items in order, one call of \<open>mutate_and_test\<close> that returns a result followed by
  the invocation of the callback with the job id of that item and that result, and after
  these at most one more call of \<open>mutate_and_test\<close>, for the next work item, that
  raised; a run that returns normally has \<open>k\<close> equal to the number of work items. So
  the job ids the callback is invoked with are always a prefix of the job ids in submission
  order. When the test command gives a test count and neither \<open>mutate_and_test\<close> nor
  the callback raises, the run returns normally, the observations are the full schedule,
  and the job ids the callback is invoked with are the job ids in submission order.
\<close>

theorem C4_one_at_a_time_in_order:
  fixes mat :: "('w, 'm, 't, 'r) mutate_and_test"
    and otc :: "('w, 'r) on_task_complete"
    and test_command :: string and timeout :: 't
    and pending_work :: "'m work_item list" and world :: 'w
  defines "obs \<equiv> observed mat otc test_command timeout pending_work world"
    and "outcome \<equiv> outcome_of (process mat otc test_command timeout pending_work world)"
  shows "prefix (completed obs) (map job_id pending_work) \<and>
         (\<forall>n. n_tests_of test_command = Inr n \<longrightarrow>
            (\<exists>k rs tail. k \<le> length pending_work \<and> length rs = k \<and>
               obs = rounds test_command n timeout (take k pending_work) rs @ tail \<and>
               (tail = [] \<or>
                (\<exists>x. k < length pending_work \<and>
                   tail = [Tested (mutations (pending_work ! k))
                     (item_command test_command n (job_id (pending_work ! k))) timeout (Inl x)])) \<and>
               (outcome = Inr () \<longrightarrow> k = length pending_work \<and> tail = []))) \<and>
         (\<forall>n. n_tests_of test_command = Inr n \<and>
            (\<forall>world' ms c. \<exists>r world''. mat world' ms c timeout = (Inr r, world'')) \<and>
            (\<forall>world' j r. fst (otc world' j r) = None) \<longrightarrow>
              outcome = Inr () \<and>
              (\<exists>rs. length rs = length pending_work \<and>
                 obs = rounds test_command n timeout pending_work rs) \<and>
              completed obs = map job_id pending_work)"
proof (intro conjI allI impI)
  show "prefix (completed obs) (map job_id pending_work)"
    unfolding obs_def completed_observed by (rule notified_prefix)
next
  fix n
  assume n: "n_tests_of test_command = Inr n"
  show "\<exists>k rs tail. k \<le> length pending_work \<and> length rs = k \<and>
               obs = rounds test_command n timeout (take k pending_work) rs @ tail \<and>
               (tail = [] \<or>
                (\<exists>x. k < length pending_work \<and>
                   tail = [Tested (mutations (pending_work ! k))
                     (item_command test_command n (job_id (pending_work ! k))) timeout (Inl x)])) \<and>
               (outcome = Inr () \<longrightarrow> k = length pending_work \<and> tail = [])"
    unfolding obs_def outcome_def by (rule observed_shape [OF n])
next
  fix n
  assume a: "n_tests_of test_command = Inr n \<and>
            (\<forall>world' ms c. \<exists>r world''. mat world' ms c timeout = (Inr r, world'')) \<and>
            (\<forall>world' j r. fst (otc world' j r) = None)"
  then have n: "n_tests_of test_command = Inr n" by blast
  show ret: "outcome = Inr ()"
    unfolding outcome_def by (rule process_returns [OF n]) (use a in blast)+
  from observed_shape [OF n, of pending_work mat otc timeout world] ret
  obtain rs where "length rs = length pending_work"
      "obs = rounds test_command n timeout pending_work rs"
    unfolding obs_def outcome_def by auto
  then show "\<exists>rs. length rs = length pending_work \<and>
                 obs = rounds test_command n timeout pending_work rs"
    by blast
  from ret show "completed obs = map job_id pending_work"
    unfolding obs_def outcome_def completed_observed by (rule notified_complete)
qed

theorem C4_witness:
  "n_tests_of ''pytest -t 5'' = Inr ''5'' \<and>
   (\<forall>world' ms c. \<exists>r world''.
      mutate_and_test_total world' (ms :: nat list) c 10 = (Inr r, world'')) \<and>
   (\<forall>world' j r. fst (on_task_complete_example world' j (r :: nat)) = None) \<and>
   outcome_of (process mutate_and_test_total on_task_complete_example ''pytest -t 5'' 10
     [job_a, job_b] []) = Inr () \<and>
   observed mutate_and_test_total on_task_complete_example ''pytest -t 5'' 10 [job_a, job_b] [] =
     rounds ''pytest -t 5'' ''5'' 10 [job_a, job_b] [1, 2] \<and>
   completed (observed mutate_and_test_total on_task_complete_example ''pytest -t 5'' 10
     [job_a, job_b] []) = [''a'', ''b'']"
  using C4_one_at_a_time_in_order [of mutate_and_test_total on_task_complete_example
      "''pytest -t 5''" 10 "[job_a, job_b]" "[]"]
  unfolding observed_example
  by (simp add: n_tests_of_example run_example outcome_of_def job_a_def job_b_def
      item_command_def output_path_def mutate_and_test_total_def on_task_complete_example_def)

theorem C4_counterexample:
  "outcome_of (process mutate_and_test_total on_task_complete_example ''pytest -t'' 10
     [job_a, job_b] []) = Inl IndexError \<and>
   completed (observed mutate_and_test_total on_task_complete_example ''pytest -t'' 10
     [job_a, job_b] []) = [] \<and>
   map job_id [job_a, job_b] = [''a'', ''b'']"
  by (simp add: observed_malformed [OF n_tests_of_example_last] n_tests_of_example_last
      outcome_of_def job_a_def job_b_def)

text \<open>
  C2, as the code has it. For a test command that does not name \<open>-t\<close> (or that
  \<open>shlex.split\<close> rejects), no work item is ever dispatched: \<open>mutate_and_test\<close> and
  the callback are never called and the world is left as it was. When there is pending work
  the run ends with the \<open>ValueError\<close> raised in the first iteration of the loop; when
  there is none the command is never looked at and the run returns normally.
\<close>

theorem C2_no_option_nothing_dispatched:
  fixes mat :: "('w, 'm, 't, 'r) mutate_and_test"
    and otc :: "('w, 'r) on_task_complete"
    and test_command :: string and timeout :: 't
    and pending_work :: "'m work_item list" and world :: 'w
  assumes "\<not> names_option test_command ''-t''"
  shows "process mat otc test_command timeout pending_work world =
           (if pending_work = [] then Inr () else Inl ValueError, [], world)"
proof (cases pending_work)
  case Nil
  then show ?thesis by simp
next
  case (Cons w ws)
  from assms have "n_tests_of test_command = Inl ValueError"
    by (rule n_tests_of_no_option)
  with Cons show ?thesis by simp
qed

lemma no_option_example: "\<not> names_option ''pytest tests'' ''-t''"
  unfolding names_option_def by code_simp

theorem C2_witness:
  "\<not> names_option ''pytest tests'' ''-t'' \<and>
   process mutate_and_test_total on_task_complete_example ''pytest tests'' 10 [job_a, job_b] [] =
     (Inl ValueError, [], [])"
  using C2_no_option_nothing_dispatched [OF no_option_example,
      of mutate_and_test_total on_task_complete_example 10 "[job_a, job_b]" "[]"]
  by (simp add: no_option_example)

theorem C2_counterexample:
  "\<not> names_option ''pytest tests'' ''-t'' \<and>
   outcome_of (process mutate_and_test_total on_task_complete_example ''pytest tests'' 10
     ([] :: nat work_item list) []) = Inr ()"
  by (simp add: no_option_example outcome_of_def)










section \<open>Properties of the executor and of the operators\<close>


lemma exceeds_execute:
  "exceeds run timeout \<Longrightarrow>
   execute run timeout =
     (TIMED_OUT, \<lparr>survived = True, output_text = [], duration = timeout, exit_code = - 1\<rparr>)"
  by (cases run) simp_all

text \<open>
  C8, against the executor of the specification. Let the work items before \<open>w\<close> have
  been processed normally, and let the test run for \<open>w\<close> exceed the timeout. Then the
  result recorded for \<open>w\<close> has the status \<open>TIMED_OUT\<close> and \<open>survived = True\<close>,
  this result is what the callback receives for the job id of \<open>w\<close>, and, the callback
  returning, the run goes on with the work items after \<open>w\<close>.
\<close>

theorem C8_timeout_survived:
  fixes tests :: "'w \<Rightarrow> 'm list \<Rightarrow> string \<Rightarrow> test_run \<times> 'w"
    and otc :: "('w, status \<times> test_outcome) on_task_complete"
    and w :: "'m work_item" and rest :: "'m work_item list"
  assumes "process (spec_mutate_and_test tests) otc test_command timeout before world =
             (Inr (), tr, world1)"
    and "n_tests_of test_command = Inr n"
    and "tests world1 (mutations w) (item_command test_command n (job_id w)) = (run, world2)"
    and "exceeds run timeout"
    and "otc world2 (job_id w) (execute run timeout) = (None, world3)"
  defines "cmd \<equiv> item_command test_command n (job_id w)"
    and "rest_run \<equiv> process (spec_mutate_and_test tests) otc test_command timeout rest world3"
  shows "fst (execute run timeout) = TIMED_OUT \<and>
         survived (snd (execute run timeout)) \<and>
         process (spec_mutate_and_test tests) otc test_command timeout (before @ w # rest) world =
           (outcome_of rest_run,
            tr @ [Started w cmd, Finished w (execute run timeout),
                  Notified (job_id w) (execute run timeout)] @ trace_of rest_run,
            snd (snd rest_run))"
proof -
  have "spec_mutate_and_test tests world1 (mutations w) cmd timeout =
          (Inr (execute run timeout), world2)"
    unfolding cmd_def by (simp add: spec_mutate_and_test_def assms(3))
  with assms(5) have "process (spec_mutate_and_test tests) otc test_command timeout
      (before @ w # rest) world =
           (outcome_of rest_run,
            tr @ [Started w cmd, Finished w (execute run timeout),
                  Notified (job_id w) (execute run timeout)] @ trace_of rest_run,
            snd (snd rest_run))"
    unfolding cmd_def rest_run_def
    by (intro process_after_continues [OF assms(1,2)]) simp_all
  then show ?thesis
    by (simp add: exceeds_execute [OF assms(4)])
qed


lemma run_b_spec:
  "process (spec_mutate_and_test tests_example) on_task_complete_example ''pytest -t 5'' 10
     [job_b] [] =
     (Inr (),
      [Started job_b ''pytest -t 5 -o t5/b.json'',
       Finished job_b (COMPLETE,
         \<lparr>survived = False, output_text = ''1 failed'', duration = 3, exit_code = 1\<rparr>),
       Notified ''b'' (COMPLETE,
         \<lparr>survived = False, output_text = ''1 failed'', duration = 3, exit_code = 1\<rparr>)],
      [(''b'', (COMPLETE,
         \<lparr>survived = False, output_text = ''1 failed'', duration = 3, exit_code = 1\<rparr>))])"
  by (simp add: n_tests_of_example item_command_def output_path_def spec_mutate_and_test_def
      tests_example_def on_task_complete_example_def job_b_def)

theorem C8_witness:
  "process (spec_mutate_and_test tests_example) on_task_complete_example ''pytest -t 5'' 10
     [job_b] [] =
     (Inr (),
      [Started job_b ''pytest -t 5 -o t5/b.json'',
       Finished job_b (COMPLETE,
         \<lparr>survived = False, output_text = ''1 failed'', duration = 3, exit_code = 1\<rparr>),
       Notified ''b'' (COMPLETE,
         \<lparr>survived = False, output_text = ''1 failed'', duration = 3, exit_code = 1\<rparr>)],
      [(''b'', (COMPLETE,
         \<lparr>survived = False, output_text = ''1 failed'', duration = 3, exit_code = 1\<rparr>))]) \<and>
   n_tests_of ''pytest -t 5'' = Inr ''5'' \<and>
   tests_example
     [(''b'', (COMPLETE,
         \<lparr>survived = False, output_text = ''1 failed'', duration = 3, exit_code = 1\<rparr>))]
     (mutations job_a) (item_command ''pytest -t 5'' ''5'' (job_id job_a)) =
     (Hangs, [(''b'', (COMPLETE,
         \<lparr>survived = False, output_text = ''1 failed'', duration = 3, exit_code = 1\<rparr>))]) \<and>
   exceeds Hangs 10 \<and>
   fst (execute Hangs 10) = TIMED_OUT \<and>
   survived (snd (execute Hangs 10)) \<and>
   notified (trace_of (process (spec_mutate_and_test tests_example) on_task_complete_example
     ''pytest -t 5'' 10 ([job_b] @ job_a # [job_empty]) [])) = [''b'', ''a'', ''e''] \<and>
   snd (snd (process (spec_mutate_and_test tests_example) on_task_complete_example
     ''pytest -t 5'' 10 ([job_b] @ job_a # [job_empty]) [])) =
     [(''b'', (COMPLETE,
         \<lparr>survived = False, output_text = ''1 failed'', duration = 3, exit_code = 1\<rparr>)),
      (''a'', (TIMED_OUT,
         \<lparr>survived = True, output_text = [], duration = 10, exit_code = - 1\<rparr>)),
      (''e'', (COMPLETE,
         \<lparr>survived = False, output_text = ''1 failed'', duration = 3, exit_code = 1\<rparr>))]"
proof -
  have t: "tests_example
     [(''b'', (COMPLETE,
         \<lparr>survived = False, output_text = ''1 failed'', duration = 3, exit_code = 1\<rparr>))]
     (mutations job_a) (item_command ''pytest -t 5'' ''5'' (job_id job_a)) =
     (Hangs, [(''b'', (COMPLETE,
         \<lparr>survived = False, output_text = ''1 failed'', duration = 3, exit_code = 1\<rparr>))])"
    by (simp add: tests_example_def job_a_def)
  have e: "exceeds Hangs 10"
    by simp
  have o: "on_task_complete_example
     [(''b'', (COMPLETE,
         \<lparr>survived = False, output_text = ''1 failed'', duration = 3, exit_code = 1\<rparr>))]
     (job_id job_a) (execute Hangs 10) =
     (None, [(''b'', (COMPLETE,
         \<lparr>survived = False, output_text = ''1 failed'', duration = 3, exit_code = 1\<rparr>)),
       (''a'', (TIMED_OUT,
         \<lparr>survived = True, output_text = [], duration = 10, exit_code = - 1\<rparr>))])"
    by (simp add: on_task_complete_example_def job_a_def)
  from C8_timeout_survived [OF run_b_spec n_tests_of_example t e o, of "[job_empty]"]
  show ?thesis
    by (simp add: n_tests_of_example item_command_def output_path_def spec_mutate_and_test_def
      tests_example_def on_task_complete_example_def job_a_def job_b_def job_empty_def
      trace_of_def outcome_of_def)
qed








text \<open>
  C6. \<open>NoOp.mutate\<close> returns the node it is given, for every node and every index.
  So whatever is computed from the mutated code is what is computed from the original: the
  executor of the specification records for the mutant the result it records for the
  original, and when the test suite passes on the original that result has
  \<open>survived = True\<close>, with the status \<open>COMPLETE\<close> when the tests end within the
  timeout.
\<close>

theorem C6_NoOp_mutate_identity:
  fixes node :: 'n and tests :: "'n \<Rightarrow> test_run"
  shows "NoOp_mutate node index = node \<and>
         execute (tests (NoOp_mutate node index)) timeout = execute (tests node) timeout \<and>
         (tests node = Exits True code out d \<longrightarrow>
            survived (snd (execute (tests (NoOp_mutate node index)) timeout)) \<and>
            (d \<le> timeout \<longrightarrow>
               fst (execute (tests (NoOp_mutate node index)) timeout) = COMPLETE))"
  by (simp add: NoOp_mutate_def)

theorem C6_witness:
  "NoOp_mutate empty_list 7 = empty_list \<and>
   suite_example empty_list = Exits True 0 ''1 passed'' 2 \<and> (2 :: nat) \<le> 10 \<and>
   fst (execute (suite_example (NoOp_mutate empty_list 7)) 10) = COMPLETE \<and>
   survived (snd (execute (suite_example (NoOp_mutate empty_list 7)) 10))"
  using C6_NoOp_mutate_identity [of empty_list 7 suite_example 10 0 "''1 passed''" 2]
  by (simp add: suite_example_def empty_list_def)

lemma get_code_empty_list: "get_code empty_list = '' []''"
  by (simp add: empty_list_def)

lemma not_ForStmt_positions:
  "\<not> is_ForStmt node \<Longrightarrow> ZeroIterationForLoop_mutation_positions node = Inr []"
  by (cases node rule: is_ForStmt.cases)
     (simp_all add: ZeroIterationForLoop_mutation_positions_def)

text \<open>
  C9. For a \<open>ForStmt\<close> node with its iterable at \<open>children[3]\<close>,
  \<open>mutation_positions\<close> yields exactly one site, the span from the start to the end of
  \<open>children[3]\<close>; for a node that is not a \<open>ForStmt\<close> it yields nothing.
  \<open>mutate\<close> with index 0 returns the \<open>ForStmt\<close> with \<open>children[3]\<close> replaced by
  the parse of \<open>" []"\<close>: the number of children is the same and every other child,
  the loop target \<open>children[1]\<close> and the body \<open>children[5]\<close> among them, is
  unchanged.
\<close>

theorem C9_ZeroIterationForLoop_frame:
  "(3 < length cs \<and> start_pos (cs ! 3) = Inr s \<and> end_pos (cs ! 3) = Inr e \<longrightarrow>
      ZeroIterationForLoop_mutation_positions (Node ForStmt cs) = Inr [(s, e)]) \<and>
   (\<not> is_ForStmt node \<longrightarrow> ZeroIterationForLoop_mutation_positions node = Inr []) \<and>
   (3 < length cs \<longrightarrow>
      ZeroIterationForLoop_mutate (Node ForStmt cs) 0 = Inr (Node ForStmt (cs[3 := empty_list])) \<and>
      length (cs[3 := empty_list]) = length cs \<and>
      cs[3 := empty_list] ! 3 = empty_list \<and>
      get_code empty_list = '' []'' \<and>
      (\<forall>i. i \<noteq> 3 \<longrightarrow> cs[3 := empty_list] ! i = cs ! i))"
proof (intro conjI)
  show "3 < length cs \<and> start_pos (cs ! 3) = Inr s \<and> end_pos (cs ! 3) = Inr e \<longrightarrow>
      ZeroIterationForLoop_mutation_positions (Node ForStmt cs) = Inr [(s, e)]"
    by (simp add: ZeroIterationForLoop_mutation_positions_def getitem_def)
  show "\<not> is_ForStmt node \<longrightarrow> ZeroIterationForLoop_mutation_positions node = Inr []"
    by (simp add: not_ForStmt_positions)
  show "3 < length cs \<longrightarrow>
      ZeroIterationForLoop_mutate (Node ForStmt cs) 0 = Inr (Node ForStmt (cs[3 := empty_list])) \<and>
      length (cs[3 := empty_list]) = length cs \<and>
      cs[3 := empty_list] ! 3 = empty_list \<and>
      get_code empty_list = '' []'' \<and>
      (\<forall>i. i \<noteq> 3 \<longrightarrow> cs[3 := empty_list] ! i = cs ! i)"
    by (simp add: ZeroIterationForLoop_mutate_def setitem_def get_code_empty_list)
qed

theorem C9_witness:
  "ZeroIterationForLoop_mutation_positions for_example = Inr [((1, 9), (1, 11))] \<and>
   \<not> is_ForStmt (Leaf Name ''xs'' (1, 9) '' '') \<and>
   ZeroIterationForLoop_mutation_positions (Leaf Name ''xs'' (1, 9) '' '') = Inr [] \<and>
   ZeroIterationForLoop_mutate for_example 0 =
     Inr (Node ForStmt
       [Leaf Keyword ''for'' (1, 0) [], Leaf Name ''i'' (1, 4) '' '',
        Leaf Keyword ''in'' (1, 6) '' '', empty_list,
        Leaf Operator '':'' (1, 11) [], Leaf Keyword ''pass'' (1, 13) '' '']) \<and>
   get_code for_example = ''for i in xs: pass'' \<and>
   map_sum id get_code (ZeroIterationForLoop_mutate for_example 0) = Inr ''for i in []: pass''"
  using
    C9_ZeroIterationForLoop_frame [of
      "[Leaf Keyword ''for'' (1, 0) [], Leaf Name ''i'' (1, 4) '' '',
        Leaf Keyword ''in'' (1, 6) '' '', Leaf Name ''xs'' (1, 9) '' '',
        Leaf Operator '':'' (1, 11) [], Leaf Keyword ''pass'' (1, 13) '' '']"
      "(1, 9)" "(1, 11)" "Leaf Name ''xs'' (1, 9) '' ''"]
  by (simp add: for_example_def leaf_end_pos_def get_code_empty_list
      ZeroIterationForLoop_mutation_positions_def ZeroIterationForLoop_mutate_def
      getitem_def setitem_def)


lemma select_candidates:
  "list_all is_Name xs \<Longrightarrow>
   select_by_id (\<lambda>i. i \<notin> regular_decorators) xs = Inr (filter (\<lambda>d. \<not> is_regular d) xs)"
proof (induction xs)
  case Nil
  show ?case by simp
next
  case (Cons x xs)
  then show ?case by (cases x) simp_all
qed

lemma select_regular:
  "list_all is_Name xs \<Longrightarrow>
   select_by_id (\<lambda>i. i \<in> regular_decorators) xs = Inr (filter is_regular xs)"
proof (induction xs)
  case Nil
  show ?case by simp
next
  case (Cons x xs)
  then show ?case by (cases x) simp_all
qed

lemma delitem_in_range:
  "0 \<le> idx \<Longrightarrow> idx < int (length xs) \<Longrightarrow>
   delitem xs idx = Inr (take (nat idx) xs @ drop (nat idx + 1) xs)"
  by (simp add: delitem_def)

lemma length_delete: "i < length xs \<Longrightarrow> length (take i xs @ drop (i + 1) xs) + 1 = length xs"
  by simp

lemma filter_partition_length:
  "length (filter (\<lambda>d. \<not> P d) xs) + length (filter P xs) = length xs"
  by (induction xs) simp_all


lemma select_by_id_not_name:
  "\<not> list_all is_Name xs \<Longrightarrow> select_by_id keep xs = Inl AttributeError"
proof (induction xs)
  case Nil
  then show ?case by simp
next
  case (Cons x xs)
  then show ?case by (cases x) (auto split: sum.splits)
qed

lemma RemoveDecorator_mutate_not_name:
  "\<not> list_all is_Name (decorator_list node) \<Longrightarrow>
   RemoveDecorator_mutate node idx = Inl AttributeError"
  by (simp add: RemoveDecorator_mutate_def select_by_id_not_name)

text \<open>
  On a function definition whose decorators are all plain names, and for
  \<open>0 \<le> idx < n\<close> with \<open>n\<close> the number of decorators that are not
  \<open>classmethod\<close>, \<open>staticmethod\<close> or \<open>abstractmethod\<close>, \<open>mutate\<close> returns
  the definition with only its decorator list changed: the new list is the candidates
  without the one at position \<open>idx\<close>, followed by the regular decorators in their
  order. It is one element shorter, it has the same regular decorators, and its other
  decorators are the candidates without the one removed.
\<close>

lemma RemoveDecorator_mutate_names:
  fixes node :: "'a FunctionDef_scheme" and idx :: int
  defines "candidates \<equiv> filter (\<lambda>d. \<not> is_regular d) (decorator_list node)"
  defines "remaining \<equiv> take (nat idx) candidates @ drop (nat idx + 1) candidates"
  assumes "list_all is_Name (decorator_list node)"
    and "0 \<le> idx" and "idx < int (length candidates)"
  shows "RemoveDecorator_mutate node idx =
           Inr (node\<lparr>decorator_list := remaining @ filter is_regular (decorator_list node)\<rparr>) \<and>
         length (remaining @ filter is_regular (decorator_list node)) + 1 =
           length (decorator_list node) \<and>
         filter is_regular (remaining @ filter is_regular (decorator_list node)) =
           filter is_regular (decorator_list node) \<and>
         filter (\<lambda>d. \<not> is_regular d) (remaining @ filter is_regular (decorator_list node)) =
           remaining"
proof (intro conjI)
  from assms(4,5) have del: "delitem candidates idx = Inr remaining"
    unfolding remaining_def by (rule delitem_in_range)
  show "RemoveDecorator_mutate node idx =
           Inr (node\<lparr>decorator_list := remaining @ filter is_regular (decorator_list node)\<rparr>)"
    using del
    by (simp add: RemoveDecorator_mutate_def select_candidates [OF assms(3)]
        select_regular [OF assms(3)] candidates_def)
  from assms(4,5) have "nat idx < length candidates"
    by simp
  then have "length remaining + 1 = length candidates"
    unfolding remaining_def by (rule length_delete)
  then show "length (remaining @ filter is_regular (decorator_list node)) + 1 =
           length (decorator_list node)"
    using filter_partition_length [of is_regular "decorator_list node"]
    by (simp add: candidates_def)
  have c: "\<forall>d \<in> set candidates. \<not> is_regular d"
    by (simp add: candidates_def)
  have "set remaining \<subseteq> set candidates"
    unfolding remaining_def using set_take_subset set_drop_subset by fastforce
  with c have r: "\<forall>d \<in> set remaining. \<not> is_regular d"
    by blast
  then have f: "filter is_regular remaining = []" and g: "filter (\<lambda>d. \<not> is_regular d) remaining = remaining"
    by (simp_all add: filter_empty_conv filter_id_conv)
  from f show "filter is_regular (remaining @ filter is_regular (decorator_list node)) =
           filter is_regular (decorator_list node)"
    by simp
  from g show "filter (\<lambda>d. \<not> is_regular d) (remaining @ filter is_regular (decorator_list node)) =
           remaining"
    by simp
qed

lemma RemoveDecorator_mutate_example:
  "RemoveDecorator_mutate def_example 0 =
     Inr \<lparr>name = ''f'', decorator_list = [ast_Name ''retry'', ast_Name ''staticmethod'']\<rparr> \<and>
   RemoveDecorator_mutate def_example 1 =
     Inr \<lparr>name = ''f'', decorator_list = [ast_Name ''trace'', ast_Name ''staticmethod'']\<rparr>"
  by (simp add: RemoveDecorator_mutate_def def_example_def regular_decorators_def delitem_def)

text \<open>
  C10 fails on the code. The function definition decorated with \<open>@trace\<close> and
  \<open>@functools.cache\<close> has one decorator that is not named \<open>classmethod\<close>,
  \<open>staticmethod\<close> or \<open>abstractmethod\<close> and that the visitor could ask to remove,
  \<open>trace\<close>, at index 0. \<open>mutate\<close> with index 0 does not return the definition
  without \<open>@trace\<close>: it raises \<open>AttributeError\<close>, because it reads \<open>x.id\<close> of
  every decorator and the dotted name \<open>functools.cache\<close> has none.
\<close>

theorem C10_mutate_raises:
  "RemoveDecorator_mutate def_cached 0 = Inl AttributeError \<and>
   decorator_list def_cached = [ast_Name ''trace'', ast_Attribute (ast_Name ''functools'') ''cache'']"
  by (simp add: RemoveDecorator_mutate_def def_cached_def)


end
